theory Spec2Isabelle
  imports Complex_Main "HOL-Library.Sublist" "HOL-Library.Multiset"
    "HOL-Library.Char_ord" "HOL-Library.List_Lexorder" "HOL-Library.Product_Lexorder"
begin

section \<open>Text of the plagiarism engine\<close>

text \<open>
  The engine lives in \<^verbatim>\<open>plagiarism_checker.py\<close> (class PlagiarismChecker: sequence
  similarity, phrase overlap, common phrases, risk report) and in
  \<^verbatim>\<open>plagiarism_detector.py\<close> (clean_text, check_plagiarism: TF-IDF and cosine).

  A Python \<^verbatim>\<open>str\<close> is modelled as a \<^typ>\<open>string\<close> whose characters are read as the
  code points U+0000 to U+00FF, and the character classes below are the ones Python 3 uses
  on that range. A Python \<^verbatim>\<open>float\<close> is modelled as an exact \<^typ>\<open>real\<close>: the theorems
  speak about the formulas the code computes, not about binary rounding.
\<close>

subsection \<open>Character classes\<close>

definition code :: "char \<Rightarrow> nat" where
  "code c = of_char c"

text \<open>\<^verbatim>\<open>str.isspace\<close>, which is also \<^verbatim>\<open>\s\<close> of \<^verbatim>\<open>re\<close> and what \<^verbatim>\<open>split()\<close>
  and \<^verbatim>\<open>strip()\<close> use.\<close>

definition is_space :: "char \<Rightarrow> bool" where
  "is_space c = ((9 \<le> code c \<and> code c \<le> 13) \<or> (28 \<le> code c \<and> code c \<le> 32)
                 \<or> code c = 133 \<or> code c = 160)"

text \<open>\<^verbatim>\<open>\d\<close> of \<^verbatim>\<open>re\<close>: the decimal digits.\<close>

definition is_digit :: "char \<Rightarrow> bool" where
  "is_digit c = (48 \<le> code c \<and> code c \<le> 57)"

text \<open>\<^verbatim>\<open>\w\<close> of \<^verbatim>\<open>re\<close>: alphanumeric characters and the underscore.\<close>

definition is_word :: "char \<Rightarrow> bool" where
  "is_word c = ((48 \<le> code c \<and> code c \<le> 57) \<or> (65 \<le> code c \<and> code c \<le> 90) \<or> code c = 95
                \<or> (97 \<le> code c \<and> code c \<le> 122) \<or> code c = 170 \<or> (178 \<le> code c \<and> code c \<le> 179)
                \<or> code c = 181 \<or> (185 \<le> code c \<and> code c \<le> 186) \<or> (188 \<le> code c \<and> code c \<le> 190)
                \<or> (192 \<le> code c \<and> code c \<le> 214) \<or> (216 \<le> code c \<and> code c \<le> 246)
                \<or> 248 \<le> code c)"

text \<open>\<^verbatim>\<open>string.punctuation\<close>.\<close>

definition is_punctuation :: "char \<Rightarrow> bool" where
  "is_punctuation c = ((33 \<le> code c \<and> code c \<le> 47) \<or> (58 \<le> code c \<and> code c \<le> 64)
                       \<or> (91 \<le> code c \<and> code c \<le> 96) \<or> (123 \<le> code c \<and> code c \<le> 126))"

text \<open>\<^verbatim>\<open>str.lower\<close> on one character.\<close>

definition lower_char :: "char \<Rightarrow> char" where
  "lower_char c = (if (65 \<le> code c \<and> code c \<le> 90) \<or> (192 \<le> code c \<and> code c \<le> 214)
                      \<or> (216 \<le> code c \<and> code c \<le> 222)
                   then char_of (code c + 32) else c)"

definition lower :: "string \<Rightarrow> string" where
  "lower text = map lower_char text"

subsection \<open>String operations of the standard library\<close>

text \<open>\<^verbatim>\<open>re.sub(r'\s+', ' ', text)\<close>: every maximal run of whitespace becomes one space.\<close>

function sub_space_runs :: "string \<Rightarrow> string" where
  "sub_space_runs [] = []"
| "sub_space_runs (c # cs) =
     (if is_space c then CHR '' '' # sub_space_runs (dropWhile is_space cs)
      else c # sub_space_runs cs)"
  by pat_completeness auto
termination
  by (relation "measure length") (auto simp: less_Suc_eq_le length_dropWhile_le)

text \<open>\<^verbatim>\<open>re.sub(r'[^\w\s]', ' ', text)\<close>: a character that is neither a word character nor
  whitespace becomes a space.\<close>

definition sub_non_word :: "string \<Rightarrow> string" where
  "sub_non_word text = map (\<lambda>c. if \<not> is_word c \<and> \<not> is_space c then CHR '' '' else c) text"

text \<open>\<^verbatim>\<open>str.strip()\<close>.\<close>

definition strip :: "string \<Rightarrow> string" where
  "strip text = rev (dropWhile is_space (rev (dropWhile is_space text)))"

text \<open>\<^verbatim>\<open>str.split()\<close>: the maximal runs of characters that are not whitespace.\<close>

function split :: "string \<Rightarrow> string list" where
  "split text =
     (case dropWhile is_space text of
        [] \<Rightarrow> []
      | c # cs \<Rightarrow> takeWhile (\<lambda>x. \<not> is_space x) (c # cs)
                 # split (dropWhile (\<lambda>x. \<not> is_space x) (c # cs)))"
  by pat_completeness auto
termination
proof (relation "measure length", goal_cases)
  case 1
  show ?case by simp
next
  case (2 s c cs)
  have "\<not> is_space c"
    using 2 by (metis hd_dropWhile list.distinct(1) list.sel(1))
  then have "length (dropWhile (\<lambda>x. \<not> is_space x) (c # cs)) \<le> length cs"
    by (simp add: length_dropWhile_le)
  moreover have "length (c # cs) \<le> length s"
    using 2 by (metis length_dropWhile_le)
  ultimately show ?case by simp
qed

declare split.simps [simp del]

text \<open>\<^verbatim>\<open>' '.join(words)\<close>.\<close>

fun join :: "string list \<Rightarrow> string" where
  "join [] = []"
| "join [w] = w"
| "join (w # ws) = w @ CHR '' '' # join ws"

subsection \<open>The two normalizers\<close>

text \<open>\<^verbatim>\<open>PlagiarismChecker.normalize_text\<close>: lowercase, collapse whitespace, punctuation to
  spaces, strip, in this order.\<close>

definition normalize_text :: "string \<Rightarrow> string" where
  "normalize_text text = strip (sub_non_word (sub_space_runs (lower text)))"

text \<open>\<^verbatim>\<open>clean_text\<close> of the detector: lowercase, delete digits, delete punctuation.\<close>

definition clean_text :: "string \<Rightarrow> string" where
  "clean_text text =
     filter (\<lambda>c. \<not> is_punctuation c) (filter (\<lambda>c. \<not> is_digit c) (lower text))"

subsection \<open>Facts about the character classes\<close>

text \<open>The characters \<^verbatim>\<open>str.lower\<close> changes.\<close>

definition is_upper :: "char \<Rightarrow> bool" where
  "is_upper c = ((65 \<le> code c \<and> code c \<le> 90) \<or> (192 \<le> code c \<and> code c \<le> 214)
                 \<or> (216 \<le> code c \<and> code c \<le> 222))"

lemma code_lower_char: "code (lower_char c) = (if is_upper c then code c + 32 else code c)"
  by (auto simp: lower_char_def is_upper_def code_def)

lemma lower_char_fixed: "\<not> is_upper c \<Longrightarrow> lower_char c = c"
  by (auto simp: lower_char_def is_upper_def)

lemma not_upper_lower_char: "\<not> is_upper (lower_char c)"
  unfolding is_upper_def code_lower_char by (auto simp: is_upper_def)

lemma lower_char_idem [simp]: "lower_char (lower_char c) = lower_char c"
  by (simp add: lower_char_fixed not_upper_lower_char)

lemma is_space_lower_char [simp]: "is_space (lower_char c) = is_space c"
  unfolding is_space_def code_lower_char by (auto simp: is_upper_def)

lemma is_digit_lower_char [simp]: "is_digit (lower_char c) = is_digit c"
  unfolding is_digit_def code_lower_char by (auto simp: is_upper_def)

lemma is_punctuation_lower_char [simp]: "is_punctuation (lower_char c) = is_punctuation c"
  unfolding is_punctuation_def code_lower_char by (auto simp: is_upper_def)

lemma space_facts [simp]:
  "is_space (CHR '' '')" "\<not> is_digit (CHR '' '')" "\<not> is_upper (CHR '' '')"
  "lower_char (CHR '' '') = CHR '' ''"
  by (simp_all add: is_space_def is_digit_def is_upper_def lower_char_def code_def)

lemma class_disjoint:
  "is_digit c \<Longrightarrow> \<not> is_space c" "is_digit c \<Longrightarrow> is_word c" "is_digit c \<Longrightarrow> \<not> is_upper c"
  "is_digit c \<Longrightarrow> \<not> is_punctuation c" "is_space c \<Longrightarrow> \<not> is_punctuation c"
  "is_space c \<Longrightarrow> \<not> is_upper c" "is_space c \<Longrightarrow> \<not> is_word c"
  by (auto simp: is_digit_def is_space_def is_word_def is_upper_def is_punctuation_def)

subsection \<open>What the normalizers keep and remove\<close>

lemma lower_lower [simp]: "lower (lower s) = lower s"
  by (simp add: lower_def)

lemma filter_dropWhile_other:
  "(\<And>c. P c \<Longrightarrow> \<not> Q c) \<Longrightarrow> filter Q (dropWhile P xs) = filter Q xs"
  by (induction xs) auto

lemma filter_digit_dropWhile_space:
  "filter is_digit (dropWhile is_space xs) = filter is_digit xs"
  by (rule filter_dropWhile_other) (use class_disjoint(1) in blast)

lemma filter_digit_strip: "filter is_digit (strip s) = filter is_digit s"
proof -
  have "filter is_digit (strip s) = rev (filter is_digit (dropWhile is_space (rev (dropWhile is_space s))))"
    by (simp add: strip_def rev_filter)
  also have "\<dots> = rev (filter is_digit (rev (dropWhile is_space s)))"
    by (simp only: filter_digit_dropWhile_space)
  also have "\<dots> = filter is_digit (dropWhile is_space s)"
    by (simp add: rev_filter)
  finally show ?thesis by (simp only: filter_digit_dropWhile_space)
qed

lemma filter_digit_sub_space_runs: "filter is_digit (sub_space_runs s) = filter is_digit s"
proof (induction s rule: sub_space_runs.induct)
  case 1
  show ?case by simp
next
  case (2 c cs)
  show ?case
  proof (cases "is_space c")
    case True
    then have "\<not> is_digit c" using class_disjoint(1) by blast
    with True 2 show ?thesis by (simp add: filter_digit_dropWhile_space)
  next
    case False
    with 2 show ?thesis by simp
  qed
qed

lemma filter_digit_sub_non_word: "filter is_digit (sub_non_word s) = filter is_digit s"
  by (induction s) (auto simp: sub_non_word_def class_disjoint)

lemma filter_digit_lower: "filter is_digit (lower s) = filter is_digit s"
  by (induction s) (auto simp: lower_def lower_char_fixed class_disjoint)

lemma normalize_text_keeps_digits: "filter is_digit (normalize_text s) = filter is_digit s"
  by (simp only: normalize_text_def filter_digit_strip filter_digit_sub_non_word
                 filter_digit_sub_space_runs filter_digit_lower)

text \<open>Characters of the output of \<open>normalize_text\<close>.\<close>

lemma set_sub_space_runs: "set (sub_space_runs s) \<subseteq> insert (CHR '' '') (set s)"
proof (induction s rule: sub_space_runs.induct)
  case 1
  show ?case by simp
next
  case (2 c cs)
  have "set (dropWhile is_space cs) \<subseteq> set cs" by (auto dest: set_dropWhileD)
  with 2 show ?case by (cases "is_space c") auto
qed

lemma sub_space_runs_spaces:
  "x \<in> set (sub_space_runs s) \<Longrightarrow> is_space x \<Longrightarrow> x = CHR '' ''"
proof (induction s rule: sub_space_runs.induct)
  case 1
  then show ?case by simp
next
  case (2 c cs)
  then show ?case by (auto split: if_splits)
qed

lemma set_strip: "set (strip s) \<subseteq> set s"
proof
  fix x assume "x \<in> set (strip s)"
  then have "x \<in> set (dropWhile is_space (rev (dropWhile is_space s)))"
    by (simp add: strip_def)
  then have "x \<in> set (rev (dropWhile is_space s))" by (rule set_dropWhileD)
  then have "x \<in> set (dropWhile is_space s)" by simp
  then show "x \<in> set s" by (rule set_dropWhileD)
qed

lemma normalize_text_chars:
  "list_all (\<lambda>c. (is_word c \<or> c = CHR '' '') \<and> lower_char c = c) (normalize_text s)"
proof -
  have "(is_word c \<or> c = CHR '' '') \<and> lower_char c = c" if c: "c \<in> set (normalize_text s)" for c
  proof -
    from c have "c \<in> set (sub_non_word (sub_space_runs (lower s)))"
      unfolding normalize_text_def using set_strip by blast
    then obtain d where d: "d \<in> set (sub_space_runs (lower s))"
      and cd: "c = (if \<not> is_word d \<and> \<not> is_space d then CHR '' '' else d)"
      by (auto simp: sub_non_word_def)
    from d have dl: "d = CHR '' '' \<or> d \<in> set (lower s)"
      using set_sub_space_runs by blast
    then have low: "lower_char d = d" by (auto simp: lower_def)
    have "is_space d \<Longrightarrow> d = CHR '' ''" using d sub_space_runs_spaces by blast
    then show ?thesis using cd low by (auto)
  qed
  then show ?thesis by (simp add: list_all_iff)
qed

lemma normalize_text_lowercased: "lower (normalize_text s) = normalize_text s"
  using normalize_text_chars[of s] unfolding lower_def list_all_iff
  by (simp add: map_idI)

text \<open>No whitespace at either end of a stripped string.\<close>

lemma takeWhile_dropWhile_nil [simp]: "takeWhile P (dropWhile P xs) = []"
  by (induction xs) auto

lemma strip_no_leading: "takeWhile is_space (strip s) = []"
proof -
  let ?y = "dropWhile is_space s"
  show ?thesis
  proof (cases ?y)
    case Nil
    show ?thesis unfolding strip_def Nil by simp
  next
    case (Cons y0 ys)
    then have ns: "\<not> is_space y0" by (metis hd_dropWhile list.distinct(1) list.sel(1))
    have st: "strip s = rev (dropWhile is_space (rev ys @ [y0]))"
      unfolding strip_def Cons by simp
    have "dropWhile is_space (rev ys @ [y0]) = dropWhile is_space (rev ys) @ [y0]
          \<or> dropWhile is_space (rev ys @ [y0]) = [y0]"
      using ns by (simp add: dropWhile_append)
    then show ?thesis
    proof
      assume "dropWhile is_space (rev ys @ [y0]) = dropWhile is_space (rev ys) @ [y0]"
      then have "strip s = y0 # rev (dropWhile is_space (rev ys))"
        unfolding st by simp
      then show ?thesis using ns by simp
    next
      assume "dropWhile is_space (rev ys @ [y0]) = [y0]"
      then have "strip s = [y0]" unfolding st by simp
      then show ?thesis using ns by simp
    qed
  qed
qed

lemma strip_no_trailing: "takeWhile is_space (rev (strip s)) = []"
  by (simp add: strip_def)

text \<open>\<open>clean_text\<close>.\<close>

lemma clean_text_lowercased: "lower (clean_text s) = clean_text s"
proof -
  have "lower_char c = c" if "c \<in> set (clean_text s)" for c
    using that by (auto simp: clean_text_def lower_def)
  then show ?thesis unfolding lower_def by (simp add: map_idI)
qed

lemma clean_text_no_digits: "filter is_digit (clean_text s) = []"
  by (auto simp: clean_text_def filter_empty_conv)

lemma clean_text_no_punctuation: "filter is_punctuation (clean_text s) = []"
  by (auto simp: clean_text_def filter_empty_conv)

lemma clean_text_keeps_spaces: "filter is_space (clean_text s) = filter is_space s"
proof -
  have "filter is_space (lower s) = filter is_space s"
    by (induction s) (auto simp: lower_def lower_char_fixed class_disjoint)
  moreover have "(\<not> is_digit c \<and> \<not> is_punctuation c \<and> is_space c) = is_space c" for c
    using class_disjoint(1,5) by blast
  ultimately show ?thesis by (simp add: clean_text_def)
qed

lemma clean_text_idempotent: "clean_text (clean_text s) = clean_text s"
proof -
  have "filter (\<lambda>c. \<not> is_digit c) (clean_text s) = clean_text s"
    using clean_text_no_digits[of s] by (simp add: filter_empty_conv)
  moreover have "filter (\<lambda>c. \<not> is_punctuation c) (clean_text s) = clean_text s"
    using clean_text_no_punctuation[of s] by (simp add: filter_empty_conv)
  ultimately show ?thesis
    using clean_text_lowercased[of s] unfolding clean_text_def[of "clean_text s"] by simp
qed

section \<open>Sequence similarity: \<^verbatim>\<open>difflib.SequenceMatcher\<close>\<close>

text \<open>
  \<^verbatim>\<open>calculate_similarity\<close> returns \<^verbatim>\<open>SequenceMatcher(None, a, b).ratio()\<close> on the two
  normalized texts. The matcher is part of the Python standard library; it is modelled
  here method by method, with \<^verbatim>\<open>isjunk=None\<close> and \<^verbatim>\<open>autojunk=True\<close> as the call has them.
\<close>

text \<open>\<^verbatim>\<open>__chain_b\<close>: \<^verbatim>\<open>b2j[x]\<close> lists the positions of \<^verbatim>\<open>x\<close> in \<^verbatim>\<open>b\<close> in increasing
  order. With 200 or more elements in \<^verbatim>\<open>b\<close>, an element occurring more than
  \<^verbatim>\<open>n // 100 + 1\<close> times is popular and loses its entry. The function below is
  \<^verbatim>\<open>b2j.get(x, [])\<close>; no element is junk, since \<^verbatim>\<open>isjunk\<close> is None.\<close>

definition indices_of :: "string \<Rightarrow> char \<Rightarrow> nat list" where
  "indices_of b x = filter (\<lambda>j. b ! j = x) [0..<length b]"

definition chain_b :: "string \<Rightarrow> char \<Rightarrow> nat list" where
  "chain_b b x =
     (let n = length b; ntest = n div 100 + 1; idxs = indices_of b x
      in if 200 \<le> n \<and> ntest < length idxs then [] else idxs)"

definition isbjunk :: "char \<Rightarrow> bool" where
  "isbjunk x = False"

type_synonym match = "nat \<times> nat \<times> nat"

text \<open>The inner loop of \<^verbatim>\<open>find_longest_match\<close> over \<^verbatim>\<open>j in b2j.get(a[i], nothing)\<close>, with
  its \<^verbatim>\<open>continue\<close> and \<^verbatim>\<open>break\<close>. \<^verbatim>\<open>j2len.get(j-1, 0)\<close> at \<^verbatim>\<open>j = 0\<close> asks for the key
  -1, which is never there.\<close>

fun inner_loop :: "nat \<Rightarrow> nat \<Rightarrow> nat \<Rightarrow> (nat \<rightharpoonup> nat) \<Rightarrow> nat list
                   \<Rightarrow> (nat \<rightharpoonup> nat) \<times> match \<Rightarrow> (nat \<rightharpoonup> nat) \<times> match" where
  "inner_loop i blo bhi j2len [] st = st"
| "inner_loop i blo bhi j2len (j # js) (newj2len, (besti, bestj, bestsize)) =
     (if j < blo then inner_loop i blo bhi j2len js (newj2len, (besti, bestj, bestsize))
      else if bhi \<le> j then (newj2len, (besti, bestj, bestsize))
      else
        let k = (if j = 0 then 0 else case j2len (j - 1) of None \<Rightarrow> 0 | Some v \<Rightarrow> v) + 1;
            newj2len' = newj2len(j \<mapsto> k)
        in if bestsize < k
           then inner_loop i blo bhi j2len js (newj2len', (i + 1 - k, j + 1 - k, k))
           else inner_loop i blo bhi j2len js (newj2len', (besti, bestj, bestsize)))"

text \<open>The outer loop \<^verbatim>\<open>for i in range(alo, ahi)\<close>.\<close>

function outer_loop :: "string \<Rightarrow> (char \<Rightarrow> nat list) \<Rightarrow> nat \<Rightarrow> nat \<Rightarrow> nat \<Rightarrow> nat
                        \<Rightarrow> (nat \<rightharpoonup> nat) \<Rightarrow> match \<Rightarrow> match" where
  "outer_loop a b2j ahi blo bhi i j2len best =
     (if i < ahi
      then (case inner_loop i blo bhi j2len (b2j (a ! i)) (Map.empty, best) of
              (newj2len, best') \<Rightarrow> outer_loop a b2j ahi blo bhi (Suc i) newj2len best')
      else best)"
  by pat_completeness auto
termination
  by (relation "measure (\<lambda>(a, b2j, ahi, blo, bhi, i, j2len, best). ahi - i)") auto

text \<open>The four \<^verbatim>\<open>while\<close> loops that extend the match: first by elements that are not junk,
  then by junk. \<open>want\<close> is the test on \<^verbatim>\<open>isbjunk\<close> the loop makes.\<close>

function extend_left :: "string \<Rightarrow> string \<Rightarrow> (bool \<Rightarrow> bool) \<Rightarrow> nat \<Rightarrow> nat \<Rightarrow> match \<Rightarrow> match" where
  "extend_left a b want alo blo (besti, bestj, bestsize) =
     (if alo < besti \<and> blo < bestj \<and> want (isbjunk (b ! (bestj - 1)))
         \<and> a ! (besti - 1) = b ! (bestj - 1)
      then extend_left a b want alo blo (besti - 1, bestj - 1, bestsize + 1)
      else (besti, bestj, bestsize))"
  by pat_completeness auto
termination
  by (relation "measure (\<lambda>(a, b, want, alo, blo, besti, bestj, bestsize). besti)") auto

function extend_right :: "string \<Rightarrow> string \<Rightarrow> (bool \<Rightarrow> bool) \<Rightarrow> nat \<Rightarrow> nat \<Rightarrow> match \<Rightarrow> match" where
  "extend_right a b want ahi bhi (besti, bestj, bestsize) =
     (if besti + bestsize < ahi \<and> bestj + bestsize < bhi \<and> want (isbjunk (b ! (bestj + bestsize)))
         \<and> a ! (besti + bestsize) = b ! (bestj + bestsize)
      then extend_right a b want ahi bhi (besti, bestj, bestsize + 1)
      else (besti, bestj, bestsize))"
  by pat_completeness auto
termination
  by (relation "measure (\<lambda>(a, b, want, ahi, bhi, besti, bestj, bestsize). ahi - (besti + bestsize))")
     auto

declare outer_loop.simps [simp del] extend_left.simps [simp del] extend_right.simps [simp del]

definition find_longest_match :: "string \<Rightarrow> string \<Rightarrow> nat \<Rightarrow> nat \<Rightarrow> nat \<Rightarrow> nat \<Rightarrow> match" where
  "find_longest_match a b alo ahi blo bhi =
     (let best = outer_loop a (chain_b b) ahi blo bhi alo Map.empty (alo, blo, 0);
          best = extend_left a b Not alo blo best;
          best = extend_right a b Not ahi bhi best;
          best = extend_left a b id alo blo best;
          best = extend_right a b id ahi bhi best
      in best)"

subsection \<open>The match stays inside its window\<close>

text \<open>The three numbers \<^verbatim>\<open>find_longest_match\<close> returns: either no match, reported at the
  lower corner of the window, or a block that lies inside the window in both sequences.\<close>

definition match_ok :: "nat \<Rightarrow> nat \<Rightarrow> nat \<Rightarrow> nat \<Rightarrow> match \<Rightarrow> bool" where
  "match_ok alo ahi blo bhi m =
     (case m of (i, j, k) \<Rightarrow>
        (k = 0 \<and> i = alo \<and> j = blo) \<or> (0 < k \<and> alo \<le> i \<and> i + k \<le> ahi \<and> blo \<le> j \<and> j + k \<le> bhi))"

definition j2len_ok :: "nat \<Rightarrow> nat \<Rightarrow> nat \<Rightarrow> nat \<Rightarrow> (nat \<rightharpoonup> nat) \<Rightarrow> bool" where
  "j2len_ok alo blo bhi i m = (\<forall>j v. m j = Some v \<longrightarrow> v + alo \<le> i \<and> v + blo \<le> j + 1 \<and> j < bhi)"

lemma inner_loop_ok:
  assumes "j2len_ok alo blo bhi i j2len" "i < ahi" "alo \<le> i"
    and "match_ok alo ahi blo bhi best" "j2len_ok alo blo bhi (Suc i) new"
    and "inner_loop i blo bhi j2len js (new, best) = (new', best')"
  shows "j2len_ok alo blo bhi (Suc i) new' \<and> match_ok alo ahi blo bhi best'"
  using assms(4-6)
proof (induction js arbitrary: new best)
  case Nil
  then show ?case by simp
next
  case (Cons j js)
  obtain bi bj bs where best: "best = (bi, bj, bs)" by (cases best)
  show ?case
  proof (cases "j < blo")
    case True
    with Cons best show ?thesis by simp
  next
    case False
    note nlo = this
    show ?thesis
    proof (cases "bhi \<le> j")
      case True
      with Cons nlo best show ?thesis by simp
    next
      case False
      define prev where "prev = (if j = 0 then 0 else case j2len (j - 1) of None \<Rightarrow> 0 | Some v \<Rightarrow> v)"
      define k where "k = prev + 1"
      have prev: "prev + alo \<le> i \<and> prev + blo \<le> j"
      proof (cases "j = 0")
        case True
        then show ?thesis using assms(3) nlo by (simp add: prev_def)
      next
        case j0: False
        show ?thesis
        proof (cases "j2len (j - 1)")
          case None
          then show ?thesis using j0 assms(3) nlo by (simp add: prev_def)
        next
          case (Some v)
          with assms(1) have "v + alo \<le> i \<and> v + blo \<le> (j - 1) + 1"
            unfolding j2len_ok_def by blast
          then show ?thesis using j0 Some by (simp add: prev_def)
        qed
      qed
      have new_ok: "j2len_ok alo blo bhi (Suc i) (new(j \<mapsto> k))"
        using Cons.prems(2) prev False unfolding j2len_ok_def k_def by auto
      have best_ok: "match_ok alo ahi blo bhi (i + 1 - k, j + 1 - k, k)"
        using prev False assms(2) unfolding match_ok_def k_def by auto
      show ?thesis
      proof (cases "bs < k")
        case True
        then have "inner_loop i blo bhi j2len js (new(j \<mapsto> k), (i + 1 - k, j + 1 - k, k)) = (new', best')"
          using Cons.prems(3) nlo False best unfolding k_def prev_def by (simp add: Let_def)
        from Cons.IH[OF best_ok new_ok this] show ?thesis .
      next
        case F2: False
        then have "inner_loop i blo bhi j2len js (new(j \<mapsto> k), best) = (new', best')"
          using Cons.prems(3) nlo False best unfolding k_def prev_def by (simp add: Let_def)
        from Cons.IH[OF Cons.prems(1) new_ok this] show ?thesis .
      qed
    qed
  qed
qed

lemma outer_loop_ok:
  assumes "j2len_ok alo blo bhi i j2len" "alo \<le> i" "match_ok alo ahi blo bhi best"
  shows "match_ok alo ahi blo bhi (outer_loop a b2j ahi blo bhi i j2len best)"
  using assms
proof (induction a b2j ahi blo bhi i j2len best rule: outer_loop.induct)
  case (1 a b2j ahi blo bhi i j2len best)
  show ?case
  proof (cases "i < ahi")
    case True
    obtain new' best' where il: "inner_loop i blo bhi j2len (b2j (a ! i)) (Map.empty, best) = (new', best')"
      by (cases "inner_loop i blo bhi j2len (b2j (a ! i)) (Map.empty, best)")
    have e: "j2len_ok alo blo bhi (Suc i) Map.empty" by (simp add: j2len_ok_def)
    from inner_loop_ok[OF "1.prems"(1) True "1.prems"(2) "1.prems"(3) e il]
    have ok: "j2len_ok alo blo bhi (Suc i) new'" "match_ok alo ahi blo bhi best'" by auto
    have "match_ok alo ahi blo bhi (outer_loop a b2j ahi blo bhi (Suc i) new' best')"
      using "1.IH"[OF True il[symmetric] ok(1) _ ok(2)] "1.prems"(2) by simp
    then show ?thesis using True il by (simp add: outer_loop.simps[of a b2j ahi blo bhi i j2len best])
  next
    case False
    then show ?thesis using "1.prems" by (simp add: outer_loop.simps[of a b2j ahi blo bhi i j2len best])
  qed
qed

lemma extend_left_ok:
  "match_ok alo ahi blo bhi m \<Longrightarrow> match_ok alo ahi blo bhi (extend_left a b want alo blo m)"
proof (induction a b want alo blo m rule: extend_left.induct)
  case (1 a b want alo blo besti bestj bestsize)
  show ?case
  proof (cases "alo < besti \<and> blo < bestj \<and> want (isbjunk (b ! (bestj - 1))) \<and> a ! (besti - 1) = b ! (bestj - 1)")
    case True
    have "match_ok alo ahi blo bhi (besti - 1, bestj - 1, bestsize + 1)"
      using "1.prems" True unfolding match_ok_def by auto
    from "1.IH"[OF True this] show ?thesis using True
      by (simp add: extend_left.simps[of a b want alo blo besti bestj bestsize])
  next
    case False
    then show ?thesis using "1.prems" by (auto simp: extend_left.simps[of a b want alo blo besti bestj bestsize])
  qed
qed

lemma extend_right_ok:
  "match_ok alo ahi blo bhi m \<Longrightarrow> match_ok alo ahi blo bhi (extend_right a b want ahi bhi m)"
proof (induction a b want ahi bhi m rule: extend_right.induct)
  case (1 a b want ahi bhi besti bestj bestsize)
  show ?case
  proof (cases "besti + bestsize < ahi \<and> bestj + bestsize < bhi \<and> want (isbjunk (b ! (bestj + bestsize)))
         \<and> a ! (besti + bestsize) = b ! (bestj + bestsize)")
    case True
    have "match_ok alo ahi blo bhi (besti, bestj, bestsize + 1)"
      using "1.prems" True unfolding match_ok_def by auto
    from "1.IH"[OF True this] show ?thesis using True
      by (simp add: extend_right.simps[of a b want ahi bhi besti bestj bestsize])
  next
    case False
    then show ?thesis using "1.prems" by (auto simp: extend_right.simps[of a b want ahi bhi besti bestj bestsize])
  qed
qed

lemma find_longest_match_ok:
  "match_ok alo ahi blo bhi (find_longest_match a b alo ahi blo bhi)"
proof -
  have 0: "match_ok alo ahi blo bhi (alo, blo, 0)" by (simp add: match_ok_def)
  have e: "j2len_ok alo blo bhi alo Map.empty" by (simp add: j2len_ok_def)
  show ?thesis unfolding find_longest_match_def Let_def
    by (intro extend_right_ok extend_left_ok outer_loop_ok[OF e _ 0]) simp
qed

subsection \<open>Matching blocks and the ratio\<close>

text \<open>\<^verbatim>\<open>get_matching_blocks\<close>, the loop \<^verbatim>\<open>while queue\<close>. The queue is used as a stack
  (\<^verbatim>\<open>queue.pop()\<close> takes the last element, \<^verbatim>\<open>append\<close> adds at the end): the list below
  has the top of the stack at its head.\<close>

type_synonym window = "nat \<times> nat \<times> nat \<times> nat"

definition window_size :: "window \<Rightarrow> nat" where
  "window_size w = (case w of (alo, ahi, blo, bhi) \<Rightarrow> 2 * (ahi - alo) + 1)"

function blocks_loop :: "string \<Rightarrow> string \<Rightarrow> window list \<Rightarrow> match list \<Rightarrow> match list" where
  "blocks_loop a b [] matching_blocks = matching_blocks"
| "blocks_loop a b ((alo, ahi, blo, bhi) # queue) matching_blocks =
     (case find_longest_match a b alo ahi blo bhi of
        (i, j, k) \<Rightarrow>
          if k \<noteq> 0
          then blocks_loop a b
                 ((if i + k < ahi \<and> j + k < bhi then [(i + k, ahi, j + k, bhi)] else [])
                  @ (if alo < i \<and> blo < j then [(alo, i, blo, j)] else [])
                  @ queue)
                 (matching_blocks @ [(i, j, k)])
          else blocks_loop a b queue matching_blocks)"
  by pat_completeness auto
termination
proof (relation "measure (\<lambda>(a, b, queue, blocks). sum_list (map window_size queue))", goal_cases)
  case 1
  show ?case by simp
next
  case (2 a b alo ahi blo bhi queue matching_blocks i jk j k)
  then have "find_longest_match a b alo ahi blo bhi = (i, j, k)"
    by simp
  then have "match_ok alo ahi blo bhi (i, j, k)"
    using find_longest_match_ok[of alo ahi blo bhi a b] by simp
  then show ?case using 2 by (auto simp: match_ok_def window_size_def)
next
  case 3
  then show ?case by (simp add: window_size_def)
qed

declare blocks_loop.simps [simp del]

text \<open>The loop that merges adjacent blocks, over the sorted list.\<close>

fun merge_loop :: "match list \<Rightarrow> match \<Rightarrow> match list \<Rightarrow> match \<times> match list" where
  "merge_loop [] cur non_adjacent = (cur, non_adjacent)"
| "merge_loop ((i2, j2, k2) # rest) (i1, j1, k1) non_adjacent =
     (if i1 + k1 = i2 \<and> j1 + k1 = j2
      then merge_loop rest (i1, j1, k1 + k2) non_adjacent
      else merge_loop rest (i2, j2, k2)
             (if k1 \<noteq> 0 then non_adjacent @ [(i1, j1, k1)] else non_adjacent))"

definition get_matching_blocks :: "string \<Rightarrow> string \<Rightarrow> match list" where
  "get_matching_blocks a b =
     (let la = length a; lb = length b;
          matching_blocks = sort (blocks_loop a b [(0, la, 0, lb)] [])
      in case merge_loop matching_blocks (0, 0, 0) [] of
           ((i1, j1, k1), non_adjacent) \<Rightarrow>
             (if k1 \<noteq> 0 then non_adjacent @ [(i1, j1, k1)] else non_adjacent) @ [(la, lb, 0)])"

text \<open>\<^verbatim>\<open>_calculate_ratio\<close> and \<^verbatim>\<open>ratio\<close>.\<close>

definition calculate_ratio :: "nat \<Rightarrow> nat \<Rightarrow> real" where
  "calculate_ratio matches len = (if len \<noteq> 0 then 2 * real matches / real len else 1)"

definition ratio :: "string \<Rightarrow> string \<Rightarrow> real" where
  "ratio a b =
     calculate_ratio (sum_list (map (\<lambda>(i, j, k). k) (get_matching_blocks a b)))
       (length a + length b)"

subsection \<open>The blocks fit into both sequences\<close>

text \<open>The sizes of the matching blocks add up to at most the length of either sequence:
  each block found takes its size out of the room left in the window it was found in.\<close>

definition block_sizes :: "match list \<Rightarrow> nat" where
  "block_sizes ms = sum_list (map (\<lambda>(i, j, k). k) ms)"

definition a_room :: "window list \<Rightarrow> nat" where
  "a_room q = sum_list (map (\<lambda>(alo, ahi, blo, bhi). ahi - alo) q)"

definition b_room :: "window list \<Rightarrow> nat" where
  "b_room q = sum_list (map (\<lambda>(alo, ahi, blo, bhi). bhi - blo) q)"

lemma block_sizes_append [simp]: "block_sizes (xs @ ys) = block_sizes xs + block_sizes ys"
  by (simp add: block_sizes_def)

lemma block_sizes_simps [simp]:
  "block_sizes [] = 0" "block_sizes ((i, j, k) # ms) = k + block_sizes ms"
  by (simp_all add: block_sizes_def)

lemma room_simps [simp]:
  "a_room [] = 0" "a_room ((alo, ahi, blo, bhi) # q) = (ahi - alo) + a_room q"
  "b_room [] = 0" "b_room ((alo, ahi, blo, bhi) # q) = (bhi - blo) + b_room q"
  "a_room (q @ q') = a_room q + a_room q'" "b_room (q @ q') = b_room q + b_room q'"
  by (simp_all add: a_room_def b_room_def)

lemma blocks_loop_bound:
  "block_sizes (blocks_loop a b queue acc) \<le> block_sizes acc + a_room queue
   \<and> block_sizes (blocks_loop a b queue acc) \<le> block_sizes acc + b_room queue"
proof (induction a b queue acc rule: blocks_loop.induct)
  case (1 a b matching_blocks)
  show ?case by (simp add: blocks_loop.simps)
next
  case (2 a b alo ahi blo bhi queue matching_blocks)
  obtain i j k where flm: "find_longest_match a b alo ahi blo bhi = (i, j, k)"
    by (cases "find_longest_match a b alo ahi blo bhi") auto
  have ok: "match_ok alo ahi blo bhi (i, j, k)"
    using find_longest_match_ok[of alo ahi blo bhi a b] flm by simp
  show ?case
  proof (cases "k = 0")
    case True
    then show ?thesis
      using "2.IH"(2)[OF flm[symmetric] refl] flm
      by (simp add: blocks_loop.simps(2)[of a b alo ahi blo bhi queue matching_blocks])
  next
    case False
    let ?q = "(if i + k < ahi \<and> j + k < bhi then [(i + k, ahi, j + k, bhi)] else [])
              @ (if alo < i \<and> blo < j then [(alo, i, blo, j)] else []) @ queue"
    have step: "blocks_loop a b ((alo, ahi, blo, bhi) # queue) matching_blocks
                  = blocks_loop a b ?q (matching_blocks @ [(i, j, k)])"
      using flm False
      by (simp add: blocks_loop.simps(2)[of a b alo ahi blo bhi queue matching_blocks])
    have ra: "k + a_room ?q \<le> (ahi - alo) + a_room queue"
      using ok False by (auto simp: match_ok_def)
    have rb: "k + b_room ?q \<le> (bhi - blo) + b_room queue"
      using ok False by (auto simp: match_ok_def)
    from "2.IH"(1)[OF flm[symmetric] refl] False
    have "block_sizes (blocks_loop a b ?q (matching_blocks @ [(i, j, k)]))
            \<le> block_sizes (matching_blocks @ [(i, j, k)]) + a_room ?q
          \<and> block_sizes (blocks_loop a b ?q (matching_blocks @ [(i, j, k)]))
            \<le> block_sizes (matching_blocks @ [(i, j, k)]) + b_room ?q"
      by simp
    then show ?thesis using ra rb unfolding step by simp
  qed
qed

lemma merge_loop_sum:
  "merge_loop xs (i1, j1, k1) na = ((i, j, k), na')
   \<Longrightarrow> block_sizes na' + k = block_sizes na + k1 + block_sizes xs"
proof (induction xs arbitrary: i1 j1 k1 na)
  case Nil
  then show ?case by simp
next
  case (Cons x xs)
  obtain i2 j2 k2 where x: "x = (i2, j2, k2)" by (cases x)
  show ?case
  proof (cases "i1 + k1 = i2 \<and> j1 + k1 = j2")
    case True
    with Cons.prems x have "merge_loop xs (i1, j1, k1 + k2) na = ((i, j, k), na')" by simp
    from Cons.IH[OF this] show ?thesis using x by simp
  next
    case False
    with Cons.prems x
    have "merge_loop xs (i2, j2, k2) (if k1 \<noteq> 0 then na @ [(i1, j1, k1)] else na) = ((i, j, k), na')"
      by simp
    from Cons.IH[OF this] show ?thesis using x by simp
  qed
qed

lemma block_sizes_sort: "block_sizes (sort ms) = block_sizes ms"
proof -
  have "block_sizes ms = sum_mset (image_mset (\<lambda>(i, j, k). k) (mset ms))" for ms :: "match list"
    unfolding block_sizes_def by (metis mset_map sum_mset_sum_list)
  then show ?thesis by simp
qed

lemma matches_eq:
  "block_sizes (get_matching_blocks a b) = block_sizes (blocks_loop a b [(0, length a, 0, length b)] [])"
proof -
  let ?bl = "sort (blocks_loop a b [(0, length a, 0, length b)] [])"
  obtain i j k na where m: "merge_loop ?bl (0, 0, 0) [] = ((i, j, k), na)"
    by (metis prod_cases3 surj_pair)
  from merge_loop_sum[OF m] have "block_sizes na + k = block_sizes ?bl" by simp
  then show ?thesis
    using m by (simp add: get_matching_blocks_def Let_def block_sizes_sort)
qed

lemma matches_bound:
  "block_sizes (get_matching_blocks a b) \<le> length a"
  "block_sizes (get_matching_blocks a b) \<le> length b"
  using blocks_loop_bound[of a b "[(0, length a, 0, length b)]" "[]"]
  by (simp_all add: matches_eq)

lemma ratio_bounds: "0 \<le> ratio a b \<and> ratio a b \<le> 1"
proof -
  have "2 * block_sizes (get_matching_blocks a b) \<le> length a + length b"
    using matches_bound[of a b] by simp
  then have "2 * real (block_sizes (get_matching_blocks a b)) \<le> real (length a + length b)"
    by (metis of_nat_le_iff of_nat_mult of_nat_numeral)
  then show ?thesis
    unfolding ratio_def calculate_ratio_def block_sizes_def[symmetric]
    by (simp add: divide_le_eq)
qed

lemma ratio_empty:
  "a = [] \<or> b = [] \<Longrightarrow> ratio a b = (if a = [] \<and> b = [] then 1 else 0)"
  using matches_bound[of a b]
  unfolding ratio_def calculate_ratio_def block_sizes_def[symmetric]
  by auto

section \<open>The checker: \<^verbatim>\<open>PlagiarismChecker\<close>\<close>

text \<open>\<^verbatim>\<open>extract_phrases\<close>: the windows \<^verbatim>\<open>words[i:i + phrase_length]\<close> for \<^verbatim>\<open>i\<close> in
  \<^verbatim>\<open>range(len(words) - phrase_length + 1)\<close>, each joined by single spaces. The range is
  empty when the difference is not positive, which the truncating subtraction of
  \<^typ>\<open>nat\<close> gives as well. The window length is a count, a \<^typ>\<open>nat\<close>; every call in the
  repository uses the default 5.\<close>

definition extract_phrases :: "string \<Rightarrow> nat \<Rightarrow> string list" where
  "extract_phrases text phrase_length =
     (let words = split text
      in map (\<lambda>i. join (take phrase_length (drop i words)))
             [0..<length words + 1 - phrase_length])"

definition calculate_similarity :: "string \<Rightarrow> string \<Rightarrow> real" where
  "calculate_similarity text1 text2 =
     (let normalized_text1 = normalize_text text1;
          normalized_text2 = normalize_text text2
      in ratio normalized_text1 normalized_text2)"

definition check_phrase_overlap :: "string \<Rightarrow> string \<Rightarrow> nat \<Rightarrow> real" where
  "check_phrase_overlap text1 text2 phrase_length =
     (let phrases1 = set (extract_phrases (normalize_text text1) phrase_length);
          phrases2 = set (extract_phrases (normalize_text text2) phrase_length)
      in if phrases1 = {} \<or> phrases2 = {} then 0
         else let common_phrases = phrases1 \<inter> phrases2
              in real (card common_phrases) / real (min (card phrases1) (card phrases2)))"

text \<open>A row of \<^verbatim>\<open>abstract_submissions\<close> as the query of \<^verbatim>\<open>check_against_database\<close>
  selects it. The query itself runs in the database; the model takes its result, the list
  \<^verbatim>\<open>submissions\<close>, as an argument.\<close>

record submission =
  sub_id :: int
  title :: string
  abstract_text :: string
  user_id :: int

record db_check =
  db_similarity_score :: real
  db_text_similarity :: real
  db_phrase_overlap :: real
  db_similar_submission :: "submission option"
  db_is_suspicious :: bool

definition min_similarity_threshold :: real where
  "min_similarity_threshold = 0.7"

text \<open>The loop \<^verbatim>\<open>for submission in submissions\<close> with its three running values.\<close>

fun db_loop :: "string \<Rightarrow> submission list \<Rightarrow> real \<times> real \<times> submission option
                \<Rightarrow> real \<times> real \<times> submission option" where
  "db_loop text [] st = st"
| "db_loop text (submission # rest) (max_similarity, max_phrase_overlap, similar_submission) =
     (let title_similarity = calculate_similarity text (title submission);
          abstract_similarity = calculate_similarity text (abstract_text submission);
          phrase_overlap = check_phrase_overlap text (abstract_text submission) 5;
          current_similarity = max title_similarity abstract_similarity
      in db_loop text rest
           (if current_similarity > max_similarity then current_similarity else max_similarity,
            if phrase_overlap > max_phrase_overlap then phrase_overlap else max_phrase_overlap,
            if current_similarity > max_similarity then Some submission else similar_submission))"

definition check_against_database :: "string \<Rightarrow> submission list \<Rightarrow> db_check" where
  "check_against_database text submissions =
     (case db_loop text submissions (0, 0, None) of
        (max_similarity, max_phrase_overlap, similar_submission) \<Rightarrow>
          let combined_score = (max_similarity * 0.7) + (max_phrase_overlap * 0.3)
          in \<lparr>db_similarity_score = combined_score,
              db_text_similarity = max_similarity,
              db_phrase_overlap = max_phrase_overlap,
              db_similar_submission = similar_submission,
              db_is_suspicious = (combined_score > min_similarity_threshold)\<rparr>)"

definition common_phrases :: "string list" where
  "common_phrases =
     [''in this paper we'', ''the purpose of this study'', ''our research shows'',
      ''the results indicate'', ''in conclusion'', ''this study aims to'',
      ''the main objective'', ''our findings suggest'', ''previous research has shown'',
      ''it is important to note'']"

text \<open>\<^verbatim>\<open>check_common_phrases\<close>; \<^verbatim>\<open>phrase in normalized_text\<close> is the substring test.\<close>

definition check_common_phrases :: "string \<Rightarrow> real" where
  "check_common_phrases text =
     (let normalized_text = normalize_text text;
          phrase_count = length (filter (\<lambda>phrase. sublist phrase normalized_text) common_phrases)
      in real phrase_count / real (length common_phrases))"

text \<open>\<^verbatim>\<open>str\<close> of an integer, for the message that names a submission.\<close>

definition digit_char :: "nat \<Rightarrow> char" where
  "digit_char d = char_of (48 + d)"

function str_nat :: "nat \<Rightarrow> string" where
  "str_nat n = (if n < 10 then [digit_char n] else str_nat (n div 10) @ [digit_char (n mod 10)])"
  by pat_completeness auto
termination
  by (relation "measure id") auto

declare str_nat.simps [simp del]

definition str_int :: "int \<Rightarrow> string" where
  "str_int i = (if i < 0 then CHR ''-'' # str_nat (nat (- i)) else str_nat (nat i))"

definition generate_recommendations :: "real \<Rightarrow> db_check \<Rightarrow> string list" where
  "generate_recommendations overall_risk db =
     (if overall_risk > 0.8
      then [''URGENT: Manual review required - high similarity detected'',
            ''Consider rejecting or requesting major revision'']
      else if overall_risk > 0.5
      then [''Manual review recommended - moderate similarity detected'',
            ''Request clarification or minor revision'']
      else if overall_risk > 0.3
      then [''Low risk detected - brief review suggested'']
      else [''Minimal plagiarism risk - safe to approve''])
     @ (case db_similar_submission db of
          None \<Rightarrow> []
        | Some s \<Rightarrow> [''Similar content found in submission ID: '' @ str_int (sub_id s)])"

record report =
  overall_score :: real
  risk_level :: string
  database_similarity :: real
  text_similarity :: real
  phrase_overlap :: real
  common_phrases_ratio :: real
  similar_submission :: "submission option"
  is_suspicious :: bool
  recommendations :: "string list"

text \<open>\<^verbatim>\<open>generate_report\<close>. \<^verbatim>\<open>sum(risk_factors)\<close> adds the three factors from left to right,
  starting at 0; the boolean \<^verbatim>\<open>len(text.split()) < 50\<close> counts as 1 or 0 in the product.\<close>

definition short_text_penalty :: "string \<Rightarrow> real" where
  "short_text_penalty text = (if length (split text) < 50 then 1 else 0)"

definition generate_report :: "string \<Rightarrow> submission list \<Rightarrow> report" where
  "generate_report text submissions =
     (let db = check_against_database text submissions;
          common_phrases_ratio = check_common_phrases text;
          risk_factors = [db_similarity_score db * 0.6,
                          common_phrases_ratio * 0.2,
                          short_text_penalty text * 0.2];
          overall_risk = sum_list risk_factors;
          risk_level = (if overall_risk > 0.8 then ''HIGH''
                        else if overall_risk > 0.5 then ''MEDIUM''
                        else if overall_risk > 0.3 then ''LOW''
                        else ''MINIMAL'')
      in \<lparr>overall_score = overall_risk,
          risk_level = risk_level,
          database_similarity = db_similarity_score db,
          text_similarity = db_text_similarity db,
          phrase_overlap = db_phrase_overlap db,
          common_phrases_ratio = common_phrases_ratio,
          similar_submission = db_similar_submission db,
          is_suspicious = (overall_risk > 0.5),
          recommendations = generate_recommendations overall_risk db\<rparr>)"

subsection \<open>The running maxima of the database check\<close>

text \<open>\<^verbatim>\<open>current_similarity\<close> of the loop body: the larger of the title and the abstract
  similarity of one submission.\<close>

definition current_similarity :: "string \<Rightarrow> submission \<Rightarrow> real" where
  "current_similarity text s =
     max (calculate_similarity text (title s)) (calculate_similarity text (abstract_text s))"

lemma if_less_max: "(if m < c then c else m) = max c (m::real)"
  by (simp add: max_def)

lemma db_loop_fst:
  "fst (db_loop text subs (m, p, s)) = fold max (map (current_similarity text) subs) m"
  by (induction subs arbitrary: m p s)
     (simp_all add: Let_def if_less_max current_similarity_def)

lemma db_loop_snd:
  "fst (snd (db_loop text subs (m, p, s)))
     = fold max (map (\<lambda>s. check_phrase_overlap text (abstract_text s) 5) subs) p"
  by (induction subs arbitrary: m p s) (simp_all add: Let_def if_less_max)

lemma fold_max_Max: "fold max xs (m::real) = Max (insert m (set xs))"
  using Max.set_eq_fold[of m xs] by simp

lemma calculate_ratio_nonneg: "0 \<le> calculate_ratio m n"
  by (simp add: calculate_ratio_def)

lemma calculate_similarity_nonneg: "0 \<le> calculate_similarity t1 t2"
  by (simp add: calculate_similarity_def ratio_def calculate_ratio_nonneg Let_def)

lemma check_phrase_overlap_nonneg: "0 \<le> check_phrase_overlap t1 t2 n"
  by (simp add: check_phrase_overlap_def Let_def)

lemma Max_insert_0:
  assumes "finite S" "S \<noteq> {}" "\<forall>x\<in>S. (0::real) \<le> x"
  shows "Max (insert 0 S) = Max S"
proof -
  have "0 \<le> Max S" using assms by (meson Max_ge_iff all_not_in_conv order_refl) 
  then show ?thesis using assms by (simp add: max_def)
qed

subsection \<open>Phrases are the word windows\<close>

lemma extract_phrases_set:
  "set (extract_phrases t w)
     = (\<lambda>i. join (take w (drop i (split t)))) ` {i. i + w \<le> length (split t)}"
proof -
  have "{0..<length (split t) + 1 - w} = {i. i + w \<le> length (split t)}"
    by auto
  then show ?thesis
    by (simp add: extract_phrases_def Let_def del: split.simps)
qed

lemma extract_phrases_empty:
  "(set (extract_phrases t w) = {}) = (length (split t) < w)"
  by (auto simp: extract_phrases_def Let_def simp del: split.simps)

section \<open>The detector: \<^verbatim>\<open>check_plagiarism\<close>\<close>

text \<open>
  \<^verbatim>\<open>check_plagiarism\<close> cleans the candidate and the sources, builds a TF-IDF matrix with
  scikit-learn's \<^verbatim>\<open>TfidfVectorizer()\<close> and compares the first row with the others by
  \<^verbatim>\<open>cosine_similarity\<close>. The two library calls are modelled with the defaults the code
  leaves in place: lowercasing, the token pattern \<^verbatim>\<open>(?u)\b\w\w+\b\<close>, no stop words, smoothed
  inverse document frequencies and rows scaled to Euclidean length 1.
\<close>

datatype error = ValueError_empty_vocabulary

text \<open>The tokens of a document: the maximal runs of word characters that are at least
  two characters long.\<close>

function tokens :: "string \<Rightarrow> string list" where
  "tokens s =
     (case dropWhile (\<lambda>c. \<not> is_word c) s of
        [] \<Rightarrow> []
      | c # cs \<Rightarrow>
          (if 2 \<le> length (takeWhile is_word (c # cs)) then [takeWhile is_word (c # cs)] else [])
          @ tokens (dropWhile is_word (c # cs)))"
  by pat_completeness auto
termination
proof (relation "measure length", goal_cases)
  case 1
  show ?case by simp
next
  case (2 s c cs)
  have "is_word c"
    using 2 by (metis (mono_tags, lifting) hd_dropWhile list.distinct(1) list.sel(1))
  then have "length (dropWhile is_word (c # cs)) \<le> length cs"
    by (simp add: length_dropWhile_le)
  moreover have "length (c # cs) \<le> length s"
    using 2 by (metis length_dropWhile_le)
  ultimately show ?case by simp
qed

declare tokens.simps [simp del]

definition analyze :: "string \<Rightarrow> string list" where
  "analyze doc = tokens (lower doc)"

text \<open>Smoothed inverse document frequency: \<^verbatim>\<open>log((1 + n) / (1 + df)) + 1\<close>.\<close>

definition idf :: "nat \<Rightarrow> nat \<Rightarrow> real" where
  "idf n_samples df = ln ((1 + real n_samples) / (1 + real df)) + 1"

text \<open>\<^verbatim>\<open>normalize(X, norm='l2')\<close> on one row: a row of norm 0 is left as it is.\<close>

definition l2_normalize :: "real list \<Rightarrow> real list" where
  "l2_normalize v =
     (let norm = sqrt (sum_list (map (\<lambda>x. x * x) v))
      in if norm = 0 then v else map (\<lambda>x. x / norm) v)"

text \<open>\<^verbatim>\<open>fit_transform\<close>: the vocabulary is the sorted set of tokens of all documents; an
  empty vocabulary is the \<^verbatim>\<open>ValueError\<close> "empty vocabulary; perhaps the documents only
  contain stop words". A row holds, for each term of the vocabulary, its count in the
  document times the term's inverse document frequency, and is then normalized.\<close>

definition fit_transform :: "string list \<Rightarrow> error + real list list" where
  "fit_transform raw_documents =
     (let analyzed = map analyze raw_documents;
          vocabulary = sort (remdups (concat analyzed))
      in if vocabulary = [] then Inl ValueError_empty_vocabulary
         else
           let n_samples = length raw_documents;
               idf_row = map (\<lambda>t. idf n_samples (length (filter (\<lambda>toks. t \<in> set toks) analyzed)))
                             vocabulary
           in Inr (map (\<lambda>toks. l2_normalize
                                  (map2 (\<lambda>t w. real (count_list toks t) * w) vocabulary idf_row))
                       analyzed))"

definition dot :: "real list \<Rightarrow> real list \<Rightarrow> real" where
  "dot v w = sum_list (map2 (*) v w)"

text \<open>\<^verbatim>\<open>cosine_similarity(X, Y)\<close>: both matrices are normalized by row, then multiplied.\<close>

definition cosine_similarity :: "real list list \<Rightarrow> real list list \<Rightarrow> real list list" where
  "cosine_similarity X Y =
     (let X_normalized = map l2_normalize X;
          Y_normalized = map l2_normalize Y
      in map (\<lambda>x. map (\<lambda>y. dot x y) Y_normalized) X_normalized)"

text \<open>The format \<^verbatim>\<open>.2f\<close>: the nearest number with two decimals, a tie going to the even
  last digit; the sign, the integer part, a point, two digits.\<close>

definition round_half_even :: "real \<Rightarrow> int" where
  "round_half_even x =
     (let f = \<lfloor>x\<rfloor>; d = x - of_int f
      in if d < 1 / 2 then f else if 1 / 2 < d then f + 1 else if even f then f else f + 1)"

definition format_2f :: "real \<Rightarrow> string" where
  "format_2f x =
     (let n = nat (round_half_even (\<bar>x\<bar> * 100))
      in (if x < 0 then ''-'' else '''')
         @ str_nat (n div 100) @ ''.'' @ [digit_char ((n div 10) mod 10), digit_char (n mod 10)])"

record result =
  source :: string
  similarity :: string

definition check_plagiarism :: "string \<Rightarrow> string list \<Rightarrow> error + result list" where
  "check_plagiarism user_text source_documents =
     (if user_text = [] then Inr []
      else
        let documents = user_text # source_documents;
            cleaned_documents = map clean_text documents
        in if length cleaned_documents < 2 then Inr []
           else
             case fit_transform cleaned_documents of
               Inl e \<Rightarrow> Inl e
             | Inr tfidf_matrix \<Rightarrow>
                 let user_vector = take 1 tfidf_matrix;
                     similarity_scores = cosine_similarity user_vector (drop 1 tfidf_matrix)
                 in Inr (map (\<lambda>(i, score).
                                \<lparr>source = source_documents ! i,
                                 similarity = format_2f (score * 100) @ ''%''\<rparr>)
                             (enumerate 0 (similarity_scores ! 0))))"

subsection \<open>The entries of the result\<close>

text \<open>\<^verbatim>\<open>similarity_scores[0]\<close> of \<^verbatim>\<open>check_plagiarism\<close>: the cosine similarity of the
  candidate's row with each source's row.\<close>

definition peer_scores :: "string \<Rightarrow> string list \<Rightarrow> real list" where
  "peer_scores user_text source_documents =
     (case fit_transform (map clean_text (user_text # source_documents)) of
        Inl e \<Rightarrow> []
      | Inr tfidf_matrix \<Rightarrow> cosine_similarity (take 1 tfidf_matrix) (drop 1 tfidf_matrix) ! 0)"

text \<open>A percentage with two decimals: an optional minus sign, one or more digits, a
  point, two digits, a percent sign.\<close>

definition two_decimal_percent :: "string \<Rightarrow> bool" where
  "two_decimal_percent s =
     (case rev s of
        p # d2 # d1 # pt # ds \<Rightarrow>
          p = CHR ''%'' \<and> is_digit d2 \<and> is_digit d1 \<and> pt = CHR ''.''
          \<and> (case rev ds of
                [] \<Rightarrow> False
              | m # r \<Rightarrow> if m = CHR ''-'' then r \<noteq> [] \<and> list_all is_digit r
                         else list_all is_digit (m # r))
      | _ \<Rightarrow> False)"

lemma is_digit_digit_char: "d < 10 \<Longrightarrow> is_digit (digit_char d)"
  by (simp add: is_digit_def digit_char_def code_def)

lemma str_nat_digits: "str_nat n \<noteq> [] \<and> list_all is_digit (str_nat n)"
proof (induction n rule: str_nat.induct)
  case (1 n)
  show ?case
  proof (cases "n < 10")
    case True
    then show ?thesis by (simp add: str_nat.simps[of n] is_digit_digit_char)
  next
    case False
    with 1 show ?thesis by (simp add: str_nat.simps[of n] is_digit_digit_char)
  qed
qed

lemma minus_not_digit: "\<not> is_digit (CHR ''-'')"
  by (simp add: is_digit_def code_def)

lemma format_2f_shape: "two_decimal_percent (format_2f x @ ''%'')"
proof -
  define n where "n = nat (round_half_even (\<bar>x\<bar> * 100))"
  obtain m r where mr: "str_nat (n div 100) = m # r"
    using str_nat_digits[of "n div 100"] by (cases "str_nat (n div 100)") auto
  have dg: "list_all is_digit (m # r)" using str_nat_digits[of "n div 100"] mr by simp
  then have m: "m \<noteq> CHR ''-''" using minus_not_digit by auto
  have d: "is_digit (digit_char (n div 10 mod 10))" "is_digit (digit_char (n mod 10))"
    by (simp_all add: is_digit_digit_char)
  show ?thesis
  proof (cases "x < 0")
    case True
    then have "format_2f x @ ''%'' = CHR ''-'' # (m # r) @ ''.''
                 @ [digit_char (n div 10 mod 10), digit_char (n mod 10)] @ ''%''"
      unfolding format_2f_def Let_def n_def[symmetric] mr by simp
    then show ?thesis using d dg by (simp add: two_decimal_percent_def)
  next
    case False
    then have "format_2f x @ ''%'' = (m # r) @ ''.''
                 @ [digit_char (n div 10 mod 10), digit_char (n mod 10)] @ ''%''"
      unfolding format_2f_def Let_def n_def[symmetric] mr by simp
    then show ?thesis using d dg m by (simp add: two_decimal_percent_def)
  qed
qed

lemma fit_transform_length: "fit_transform docs = Inr m \<Longrightarrow> length m = length docs"
  by (auto simp: fit_transform_def Let_def split: if_splits)

lemma cosine_row_length:
  "X \<noteq> [] \<Longrightarrow> length (cosine_similarity X Y ! 0) = length Y"
  by (cases X) (simp_all add: cosine_similarity_def Let_def)

lemma map_enumerate_nth:
  "length ys = length xs \<Longrightarrow> map (\<lambda>(i, y). f (xs ! i) y) (enumerate 0 ys) = map2 f xs ys"
  by (rule nth_equalityI) (simp_all add: nth_enumerate_eq)

lemma check_plagiarism_results:
  assumes "check_plagiarism user_text source_documents = Inr rs" "rs \<noteq> []"
  shows "length (peer_scores user_text source_documents) = length source_documents"
    and "rs = map2 (\<lambda>s score. \<lparr>source = s, similarity = format_2f (score * 100) @ ''%''\<rparr>)
                   source_documents (peer_scores user_text source_documents)"
proof -
  let ?docs = "map clean_text (user_text # source_documents)"
  from assms have ne: "user_text \<noteq> []" "source_documents \<noteq> []"
    by (auto simp: check_plagiarism_def split: if_splits)
  with assms(1) obtain m where m: "fit_transform ?docs = Inr m"
    by (cases "fit_transform ?docs") (auto simp: check_plagiarism_def Let_def)
  have lm: "length m = Suc (length source_documents)"
    using fit_transform_length[OF m] by simp
  have ps: "peer_scores user_text source_documents = cosine_similarity (take 1 m) (drop 1 m) ! 0"
    by (simp only: peer_scores_def m sum.case)
  have "take 1 m \<noteq> []" using lm by (cases m) auto
  from cosine_row_length[OF this, of "drop 1 m"] lm
  show len: "length (peer_scores user_text source_documents) = length source_documents"
    by (simp add: ps)
  have "rs = map (\<lambda>(i, score). \<lparr>source = source_documents ! i,
                                 similarity = format_2f (score * 100) @ ''%''\<rparr>)
                 (enumerate 0 (peer_scores user_text source_documents))"
    using assms(1) ne m by (simp add: check_plagiarism_def Let_def ps)
  then show "rs = map2 (\<lambda>s score. \<lparr>source = s, similarity = format_2f (score * 100) @ ''%''\<rparr>)
                   source_documents (peer_scores user_text source_documents)"
    using map_enumerate_nth[OF len,
            of "\<lambda>s score. \<lparr>source = s, similarity = format_2f (score * 100) @ ''%''\<rparr>"]
    by simp
qed

text \<open>A run of the whole function: a candidate compared with a copy of itself.\<close>

lemma fit_transform_ab: "fit_transform [''ab'', ''ab''] = Inr [[1], [1]]"
proof -
  have a: "analyze ''ab'' = [''ab'']" by code_simp
  have v: "sort (remdups [''ab'', ''ab'']) = [''ab'']" by simp
  show ?thesis
    by (simp add: fit_transform_def a v Let_def idf_def l2_normalize_def)
qed

lemma str_nat_100: "str_nat 100 = ''100''"
  by code_simp

lemma format_2f_100: "format_2f 100 = ''100.00''"
proof -
  have "round_half_even (10000::real) = 10000"
    by (simp add: round_half_even_def Let_def)
  moreover have "digit_char 0 = CHR ''0''" by code_simp
  ultimately show ?thesis
    by (simp add: format_2f_def Let_def str_nat_100)
qed

lemma check_plagiarism_ab:
  "check_plagiarism ''ab'' [''ab''] = Inr [\<lparr>source = ''ab'', similarity = ''100.00%''\<rparr>]"
proof -
  have c: "clean_text ''ab'' = ''ab''" by code_simp
  have cs: "cosine_similarity [[1]] [[1]] = [[1]]"
    by (simp add: cosine_similarity_def Let_def l2_normalize_def dot_def)
  show ?thesis
    by (simp add: check_plagiarism_def c fit_transform_ab Let_def cs format_2f_100)
qed

section \<open>Properties of the normalizers\<close>

text \<open>
  Claim C3 (idempotence of both normalizers). \<^verbatim>\<open>clean_text\<close> is idempotent
  (\<open>clean_text_idempotent\<close> above). \<^verbatim>\<open>normalize_text\<close> collapses whitespace before it turns
  punctuation into spaces, so two adjacent punctuation marks leave two spaces behind,
  which a second pass collapses: on \<^verbatim>\<open>"a,,b"\<close> the first pass returns \<^verbatim>\<open>"a  b"\<close> (two
  spaces) and the second \<^verbatim>\<open>"a b"\<close>. The normalizer of the phrase and sequence path is
  therefore not idempotent.
\<close>

theorem normalize_text_not_idempotent:
  "normalize_text ''a,,b'' = ''a  b'' \<and> normalize_text (normalize_text ''a,,b'') = ''a b''"
  by code_simp

text \<open>
  Claim C4, as stated (lowercased, no digits, no runs of whitespace, no whitespace at
  the ends, for the normalizer): fails on both paths. \<^verbatim>\<open>normalize_text\<close> keeps digits, which
  are word characters for its pattern; \<^verbatim>\<open>clean_text\<close> has no step that touches whitespace.
\<close>

theorem normalizers_keep_digits_or_whitespace:
  "normalize_text ''a1'' = ''a1'' \<and> filter is_digit (normalize_text ''a1'') = ''1''
   \<and> clean_text '' a  b '' = '' a  b ''"
  by code_simp

text \<open>
  Claim C4, amended. The output of \<^verbatim>\<open>normalize_text\<close> is lowercased, has no whitespace at
  either end, consists of word characters and spaces only, and keeps every digit of the
  input, in order. The output of \<^verbatim>\<open>clean_text\<close> is lowercased, has no digit and no
  punctuation character, and keeps every whitespace character of the input, in order.
  Both return the empty string on the empty string. (Whether \<^verbatim>\<open>normalize_text\<close> leaves
  runs of spaces is the subject of claim C3.)
\<close>

theorem normalizers_guarantee:
  "lower (normalize_text s) = normalize_text s
   \<and> takeWhile is_space (normalize_text s) = []
   \<and> takeWhile is_space (rev (normalize_text s)) = []
   \<and> list_all (\<lambda>c. is_word c \<or> c = CHR '' '') (normalize_text s)
   \<and> filter is_digit (normalize_text s) = filter is_digit s
   \<and> normalize_text [] = []
   \<and> lower (clean_text s) = clean_text s
   \<and> filter is_digit (clean_text s) = []
   \<and> filter is_punctuation (clean_text s) = []
   \<and> filter is_space (clean_text s) = filter is_space s
   \<and> clean_text [] = []"
proof -
  have "list_all (\<lambda>c. is_word c \<or> c = CHR '' '') (normalize_text s)"
    using normalize_text_chars[of s] by (simp add: list_all_iff)
  moreover have "normalize_text [] = []"
    by (simp add: normalize_text_def lower_def sub_non_word_def strip_def)
  moreover have "clean_text [] = []"
    by (simp add: clean_text_def lower_def)
  moreover have "takeWhile is_space (normalize_text s) = []"
    by (simp add: normalize_text_def strip_no_leading)
  moreover have "takeWhile is_space (rev (normalize_text s)) = []"
    by (simp add: normalize_text_def strip_no_trailing)
  ultimately show ?thesis
    by (simp add: normalize_text_lowercased normalize_text_keeps_digits clean_text_lowercased
          clean_text_no_digits clean_text_no_punctuation clean_text_keeps_spaces)
qed

section \<open>Phrase overlap\<close>

text \<open>
  Claim C6. For texts A and B and a window of w words: the phrase set of a text is the set
  of its joined w-word windows and is empty exactly when the normalized text has fewer
  than w words; \<^verbatim>\<open>check_phrase_overlap\<close> returns 0 when either text has fewer than w words,
  and otherwise the number of common phrases divided by the size of the smaller phrase set.
\<close>

theorem phrase_overlap_formula:
  fixes A B :: string and w :: nat
  defines "wordsA \<equiv> split (normalize_text A)" and "wordsB \<equiv> split (normalize_text B)"
  defines "PA \<equiv> set (extract_phrases (normalize_text A) w)"
      and "PB \<equiv> set (extract_phrases (normalize_text B) w)"
  shows "check_phrase_overlap A B w
           = (if length wordsA < w \<or> length wordsB < w then 0
              else real (card (PA \<inter> PB)) / real (min (card PA) (card PB)))
         \<and> (PA = {}) = (length wordsA < w) \<and> (PB = {}) = (length wordsB < w)
         \<and> PA = (\<lambda>i. join (take w (drop i wordsA))) ` {i. i + w \<le> length wordsA}
         \<and> PB = (\<lambda>i. join (take w (drop i wordsB))) ` {i. i + w \<le> length wordsB}"
  unfolding PA_def PB_def wordsA_def wordsB_def check_phrase_overlap_def Let_def
  using extract_phrases_empty[of "normalize_text A" w] extract_phrases_empty[of "normalize_text B" w]
        extract_phrases_set[of "normalize_text A" w] extract_phrases_set[of "normalize_text B" w]
  by (simp del: split.simps)

section \<open>The risk report\<close>

text \<open>
  Claim C7. The report's \<^verbatim>\<open>overall_score\<close> is 0.6 times \<^verbatim>\<open>database_similarity\<close> plus 0.2
  times \<^verbatim>\<open>common_phrases_ratio\<close> plus 0.2 times the short-text penalty (1 when the candidate
  has fewer than 50 words, 0 otherwise), and \<^verbatim>\<open>database_similarity\<close> is 0.7 times the
  largest, over the corpus, of the larger of title and abstract sequence similarity, plus
  0.3 times the largest phrase overlap over the corpus; both maxima are 0 on an empty
  corpus.
\<close>

theorem overall_score_formula:
  fixes candidate :: string and submissions :: "submission list"
  defines "r \<equiv> generate_report candidate submissions"
  shows "overall_score r
           = 0.6 * database_similarity r + 0.2 * common_phrases_ratio r
             + 0.2 * (if length (split candidate) < 50 then 1 else 0)
         \<and> database_similarity r
           = 0.7 * (if submissions = [] then 0
                    else Max ((\<lambda>s. max (calculate_similarity candidate (title s))
                                         (calculate_similarity candidate (abstract_text s)))
                              ` set submissions))
             + 0.3 * (if submissions = [] then 0
                      else Max ((\<lambda>s. check_phrase_overlap candidate (abstract_text s) 5)
                                ` set submissions))
         \<and> common_phrases_ratio r = check_common_phrases candidate"
proof -
  let ?cur = "\<lambda>s. max (calculate_similarity candidate (title s))
                       (calculate_similarity candidate (abstract_text s))"
  let ?po = "\<lambda>s. check_phrase_overlap candidate (abstract_text s) 5"
  have cur: "current_similarity candidate = ?cur" by (simp add: current_similarity_def fun_eq_iff)
  have m1: "Max (insert 0 (?cur ` set submissions)) = Max (?cur ` set submissions)"
    if "submissions \<noteq> []"
    using that by (intro Max_insert_0) (auto simp: calculate_similarity_nonneg le_max_iff_disj)
  have m2: "Max (insert 0 (?po ` set submissions)) = Max (?po ` set submissions)"
    if "submissions \<noteq> []"
    using that by (intro Max_insert_0) (auto simp: check_phrase_overlap_nonneg)
  have db: "db_similarity_score (check_against_database candidate submissions)
              = 0.7 * Max (insert 0 (?cur ` set submissions))
                + 0.3 * Max (insert 0 (?po ` set submissions))"
    using db_loop_fst[of candidate submissions 0 0 None] db_loop_snd[of candidate submissions 0 0 None]
    unfolding check_against_database_def
    by (cases "db_loop candidate submissions (0, 0, None)") (simp add: Let_def fold_max_Max cur)
  have "database_similarity r = db_similarity_score (check_against_database candidate submissions)"
    by (simp add: r_def generate_report_def Let_def)
  moreover have "overall_score r
           = 0.6 * database_similarity r + 0.2 * common_phrases_ratio r
             + 0.2 * (if length (split candidate) < 50 then 1 else 0)"
    by (simp add: r_def generate_report_def Let_def short_text_penalty_def)
  moreover have "common_phrases_ratio r = check_common_phrases candidate"
    by (simp add: r_def generate_report_def Let_def)
  ultimately show ?thesis using db m1 m2 by (cases "submissions = []") simp_all
qed

text \<open>
  Claim C8. The risk level is HIGH exactly when the overall score is above 0.8, MEDIUM
  exactly when it is above 0.5 and at most 0.8, LOW exactly when it is above 0.3 and at
  most 0.5, MINIMAL otherwise; \<^verbatim>\<open>is_suspicious\<close> holds exactly when the score is above
  0.5. All comparisons are strict.
\<close>

theorem risk_level_thresholds:
  fixes candidate :: string and submissions :: "submission list"
  defines "r \<equiv> generate_report candidate submissions"
  shows "(risk_level r = ''HIGH'') = (overall_score r > 0.8)
       \<and> (risk_level r = ''MEDIUM'') = (0.5 < overall_score r \<and> overall_score r \<le> 0.8)
       \<and> (risk_level r = ''LOW'') = (0.3 < overall_score r \<and> overall_score r \<le> 0.5)
       \<and> (risk_level r = ''MINIMAL'') = (overall_score r \<le> 0.3)
       \<and> is_suspicious r = (overall_score r > 0.5)"
  by (simp add: r_def generate_report_def Let_def)

section \<open>Sequence similarity\<close>

text \<open>
  Claim C5 (symmetry of sequence similarity), as stated: fails. The matcher looks for the
  longest block that starts earliest in its first sequence, so the blocks it finds depend
  on the order of the arguments: for \<^verbatim>\<open>"tide"\<close> against \<^verbatim>\<open>"diet"\<close> it matches one
  character (ratio 0.25), for \<^verbatim>\<open>"diet"\<close> against \<^verbatim>\<open>"tide"\<close> two (ratio 0.5).
\<close>

theorem sequence_similarity_not_symmetric:
  "calculate_similarity ''tide'' ''diet'' = 1 / 4
   \<and> calculate_similarity ''diet'' ''tide'' = 1 / 2
   \<and> calculate_similarity ''tide'' ''diet'' \<noteq> calculate_similarity ''diet'' ''tide''"
proof -
  have n: "normalize_text ''tide'' = ''tide''" "normalize_text ''diet'' = ''diet''"
    by code_simp+
  have m: "block_sizes (get_matching_blocks ''tide'' ''diet'') = 1"
          "block_sizes (get_matching_blocks ''diet'' ''tide'') = 2"
    unfolding block_sizes_def by code_simp+
  show ?thesis
    unfolding calculate_similarity_def Let_def ratio_def calculate_ratio_def
              block_sizes_def[symmetric] n m
    by simp
qed

text \<open>
  Claim C5, amended. Sequence similarity is symmetric when one of the two normalized
  texts is empty or when the two normalized texts are equal; in general the two orders
  may give different ratios.
\<close>

theorem sequence_similarity_symmetric_cases:
  assumes "normalize_text A = [] \<or> normalize_text B = [] \<or> normalize_text A = normalize_text B"
  shows "calculate_similarity A B = calculate_similarity B A"
proof (cases "normalize_text A = normalize_text B")
  case True
  then show ?thesis by (simp add: calculate_similarity_def)
next
  case False
  with assms have e: "normalize_text A = [] \<or> normalize_text B = []" by simp
  then have "normalize_text B = [] \<or> normalize_text A = []" by blast
  from ratio_empty[OF e] ratio_empty[OF this] show ?thesis
    by (simp add: calculate_similarity_def Let_def conj_commute)
qed

theorem sequence_similarity_symmetric_cases_witness:
  "normalize_text ''!'' = [] \<and> calculate_similarity ''!'' ''x'' = calculate_similarity ''x'' ''!''"
proof -
  have h: "normalize_text ''!'' = []" by code_simp
  then have "normalize_text ''!'' = [] \<or> normalize_text ''x'' = []
             \<or> normalize_text ''!'' = normalize_text ''x''" by simp
  from sequence_similarity_symmetric_cases[OF this] h show ?thesis by simp
qed

section \<open>The peer comparison\<close>

text \<open>
  Claim C1, as stated (a non-empty candidate with no sources raises EmptyCorpusError):
  fails. The code has no such error; with no sources the list of cleaned documents has
  one element, and the guard \<^verbatim>\<open>len(cleaned_documents) < 2\<close> returns the empty list.
\<close>

theorem check_plagiarism_empty_sources_returns:
  "check_plagiarism ''x'' [] = Inr [] \<and> \<not> isl (check_plagiarism ''x'' [])"
  by (simp add: check_plagiarism_def)

text \<open>
  Claim C1, amended. With an empty sequence of sources \<^verbatim>\<open>check_plagiarism\<close> returns the
  empty sequence for every candidate, and with the empty candidate it returns the empty
  sequence for every sequence of sources; neither call raises.
\<close>

theorem check_plagiarism_degenerate:
  "check_plagiarism user_text [] = Inr [] \<and> check_plagiarism [] source_documents = Inr []"
  by (simp add: check_plagiarism_def)

text \<open>
  Claim C2 (no comparison raises on a string input). Sequence similarity, phrase overlap
  and the common-phrase ratio are total: their divisions are guarded or have a constant
  divisor. The vector path is not: when no cleaned document contains a token, that is a
  run of two or more word characters, the vectorizer raises its empty-vocabulary
  \<^verbatim>\<open>ValueError\<close>, which \<^verbatim>\<open>check_plagiarism\<close> does not catch. One-letter answers and texts
  of digits only are such inputs.
\<close>

theorem check_plagiarism_raises_on_empty_vocabulary:
  "check_plagiarism ''a'' [''b''] = Inl ValueError_empty_vocabulary
   \<and> check_plagiarism ''123'' [''456''] = Inl ValueError_empty_vocabulary"
proof -
  have c: "clean_text ''a'' = ''a''" "clean_text ''b'' = ''b''"
          "clean_text ''123'' = []" "clean_text ''456'' = []" by code_simp+
  have "analyze ''a'' = []" "analyze ''b'' = []" "analyze [] = []" by code_simp+
  then have "fit_transform [''a'', ''b''] = Inl ValueError_empty_vocabulary"
            "fit_transform [[], []] = Inl ValueError_empty_vocabulary"
    by (simp_all add: fit_transform_def)
  then show ?thesis by (simp add: check_plagiarism_def c)
qed

text \<open>
  Claim C10. When \<^verbatim>\<open>check_plagiarism\<close> returns a non-empty result, its entries are, in
  order, the sources as they were given (under the key \<^verbatim>\<open>source\<close>), each paired with
  its cosine score times 100 in the format \<^verbatim>\<open>.2f\<close> followed by a percent sign: a string
  with exactly two decimals. Both fields of an entry are strings; no number is returned.
\<close>

theorem check_plagiarism_entries:
  assumes "check_plagiarism user_text source_documents = Inr rs" and "rs \<noteq> []"
  shows "map source rs = source_documents
         \<and> map similarity rs
             = map (\<lambda>score. format_2f (score * 100) @ ''%'') (peer_scores user_text source_documents)
         \<and> list_all two_decimal_percent (map similarity rs)"
proof -
  note r = check_plagiarism_results[OF assms]
  have "map source rs = source_documents"
    unfolding r(2) using r(1) by (intro nth_equalityI) simp_all
  moreover have "map similarity rs
      = map (\<lambda>score. format_2f (score * 100) @ ''%'') (peer_scores user_text source_documents)"
    unfolding r(2) using r(1) by (intro nth_equalityI) simp_all
  moreover have "list_all two_decimal_percent
      (map (\<lambda>score. format_2f (score * 100) @ ''%'') (peer_scores user_text source_documents))"
    by (simp add: list_all_iff format_2f_shape)
  ultimately show ?thesis by simp
qed

theorem check_plagiarism_entries_witness:
  "check_plagiarism ''ab'' [''ab''] = Inr [\<lparr>source = ''ab'', similarity = ''100.00%''\<rparr>]
   \<and> map source [\<lparr>source = ''ab'', similarity = ''100.00%''\<rparr>] = [''ab'']
   \<and> list_all two_decimal_percent (map similarity [\<lparr>source = ''ab'', similarity = ''100.00%''\<rparr>])"
proof -
  have e: "check_plagiarism ''ab'' [''ab''] = Inr [\<lparr>source = ''ab'', similarity = ''100.00%''\<rparr>]"
    by (rule check_plagiarism_ab)
  have n: "[\<lparr>source = ''ab'', similarity = ''100.00%''\<rparr>] \<noteq> []" by simp
  have "map source [\<lparr>source = ''ab'', similarity = ''100.00%''\<rparr>] = [''ab'']
        \<and> list_all two_decimal_percent
              (map similarity [\<lparr>source = ''ab'', similarity = ''100.00%''\<rparr>])"
    using check_plagiarism_entries[OF e n] by blast
  with e show ?thesis by blast
qed

end
